theory Spec2Isabelle
  imports Main
begin

section \<open>Values and the object store\<close>

text \<open>
  The program works on parsed JSON. Objects and arrays are mutable and shared by
  reference: \<open>setValueByPath\<close> stores the value it is given without copying it and later
  walks into what it stored. The embedding therefore keeps objects and arrays in a store
  (a list of cells, the address of a cell being its position) and lets values refer to
  them by address.

  Conventions of the embedding, each of them a limit of what the theorems below say:
  \<^item> a property of a JSON value is an own property: the store does not hold the
    prototypes of the runtime, so what a value inherits (such as \<open>toString\<close> or the
    accessor \<open>__proto__\<close>) is not read or written through it. The registry of transforms
    is looked up with what it inherits, see \<open>registry_lookup\<close>;
  \<^item> numbers are opaque payloads (integers here); a string is a list of code units below
    256, and upper-casing a string with a code unit above 127 is left to the runtime;
  \<^item> the property list of an object is kept in insertion order;
  \<^item> a hole of an array is the value \<open>undefined\<close>.
\<close>

type_synonym addr = nat

datatype val = VUndef | VNull | VBool bool | VNum int | VStr string | VRef addr

datatype cell =
    Obj "(string \<times> val) list"
  | Arr "val list" "(string \<times> val) list"

type_synonym heap = "cell list"

text \<open>
  What a function of the program hands back is either a value it was given or has read
  (\<open>Old\<close>), or an array it has just built (\<open>New\<close>, with its elements). A new array has no
  address yet: it gets one when \<open>setValueByPath\<close> stores it.
\<close>

datatype rval = Old val | New "val list"

datatype exn = TypeError | RangeError | Thrown string

text \<open>
  The services of the JavaScript runtime the program relies on and that are not part of
  the repository:
  \<^item> \<open>region_name\<close>: what \<open>dn.of(normalized)\<close> would return in the \<open>try\<close> block of
    \<open>countryFromISO\<close>, \<open>None\<close> for \<open>undefined\<close>;
  \<^item> \<open>inherited_function\<close>: the functions an object literal inherits from
    \<open>Object.prototype\<close>, by name, as they behave when called without a receiver;
  \<^item> \<open>upper_non_ascii\<close>: \<open>toUpperCase\<close> on a string that has a code unit above 127;
  \<^item> \<open>to_String\<close>: the conversion of a value that is not a string to a string (\<open>String(v)\<close>,
    and the conversion of a property key), which may throw;
  \<^item> \<open>set_array_length\<close>: what an assignment to the \<open>length\<close> of an array does to its
    elements, or the exception it throws.
\<close>

record runtime =
  region_name :: "string \<Rightarrow> string option"
  inherited_function :: "string \<Rightarrow> (heap \<Rightarrow> rval list \<Rightarrow> exn + rval) option"
  upper_non_ascii :: "string \<Rightarrow> string"
  to_String :: "heap \<Rightarrow> rval \<Rightarrow> exn + string"
  set_array_length :: "heap \<Rightarrow> val list \<Rightarrow> val \<Rightarrow> exn + val list"

definition cell_at :: "heap \<Rightarrow> addr \<Rightarrow> cell option" where
  "cell_at h a = (if a < length h then Some (h ! a) else None)"

definition alloc :: "heap \<Rightarrow> cell \<Rightarrow> heap \<times> val" where
  "alloc h c = (h @ [c], VRef (length h))"

definition nullish :: "val \<Rightarrow> bool" where
  "nullish v = (v = VUndef \<or> v = VNull)"

fun truthy :: "val \<Rightarrow> bool" where
  "truthy VUndef = False"
| "truthy VNull = False"
| "truthy (VBool b) = b"
| "truthy (VNum n) = (n \<noteq> 0)"
| "truthy (VStr s) = (s \<noteq> [])"
| "truthy (VRef a) = True"

fun js_typeof :: "val \<Rightarrow> string" where
  "js_typeof VUndef = ''undefined''"
| "js_typeof VNull = ''object''"
| "js_typeof (VBool b) = ''boolean''"
| "js_typeof (VNum n) = ''number''"
| "js_typeof (VStr s) = ''string''"
| "js_typeof (VRef a) = ''object''"

section \<open>Strings\<close>

fun split_on :: "char \<Rightarrow> string \<Rightarrow> string \<Rightarrow> string list" where
  "split_on d acc [] = [rev acc]"
| "split_on d acc (c # cs) =
     (if c = d then rev acc # split_on d [] cs else split_on d (c # acc) cs)"

definition split_dot :: "string \<Rightarrow> string list" where
  "split_dot s = split_on (CHR ''.'') [] s"

definition ends_with :: "string \<Rightarrow> string \<Rightarrow> bool" where
  "ends_with suf s = (length suf \<le> length s \<and> drop (length s - length suf) s = suf)"

definition starts_with :: "string \<Rightarrow> string \<Rightarrow> bool" where
  "starts_with pre s = (take (length pre) s = pre)"

definition is_digit :: "char \<Rightarrow> bool" where
  "is_digit c = (c \<in> set ''0123456789'')"

definition digit_val :: "char \<Rightarrow> nat" where
  "digit_val c = of_char c - 48"

definition nat_of_digits :: "string \<Rightarrow> nat" where
  "nat_of_digits s = foldl (\<lambda>n c. 10 * n + digit_val c) 0 s"

text \<open>A property key is an array index when it is the canonical decimal form of a number.\<close>

definition parse_index :: "string \<Rightarrow> nat option" where
  "parse_index s =
     (if s \<noteq> [] \<and> list_all is_digit s \<and> (s = ''0'' \<or> hd s \<noteq> CHR ''0'')
      then Some (nat_of_digits s) else None)"

section \<open>Property access\<close>

definition lookup :: "(string \<times> val) list \<Rightarrow> string \<Rightarrow> val" where
  "lookup ps k = (case map_of ps k of Some v \<Rightarrow> v | None \<Rightarrow> VUndef)"

fun obj_put :: "(string \<times> val) list \<Rightarrow> string \<Rightarrow> val \<Rightarrow> (string \<times> val) list" where
  "obj_put [] k v = [(k, v)]"
| "obj_put (p # ps) k v = (if fst p = k then (k, v) # ps else p # obj_put ps k v)"

definition nth_or_undef :: "val list \<Rightarrow> nat \<Rightarrow> val" where
  "nth_or_undef xs i = (if i < length xs then xs ! i else VUndef)"

definition arr_put :: "val list \<Rightarrow> nat \<Rightarrow> val \<Rightarrow> val list" where
  "arr_put xs i v =
     (if i < length xs then xs[i := v] else xs @ replicate (i - length xs) VUndef @ [v])"

definition is_array :: "heap \<Rightarrow> val \<Rightarrow> bool" where
  "is_array h v =
     (case v of VRef a \<Rightarrow> (case cell_at h a of Some (Arr xs ps) \<Rightarrow> True | _ \<Rightarrow> False)
      | _ \<Rightarrow> False)"

definition elems :: "heap \<Rightarrow> val \<Rightarrow> val list" where
  "elems h v =
     (case v of VRef a \<Rightarrow> (case cell_at h a of Some (Arr xs ps) \<Rightarrow> xs | _ \<Rightarrow> [])
      | _ \<Rightarrow> [])"

text \<open>\<open>base[key]\<close> for a base that is neither \<open>null\<close> nor \<open>undefined\<close>.\<close>

definition get_prop :: "heap \<Rightarrow> val \<Rightarrow> string \<Rightarrow> val" where
  "get_prop h base k =
     (case base of
        VRef a \<Rightarrow>
          (case cell_at h a of
             Some (Obj ps) \<Rightarrow> lookup ps k
           | Some (Arr xs ps) \<Rightarrow>
               (case parse_index k of
                  Some i \<Rightarrow> nth_or_undef xs i
                | None \<Rightarrow> if k = ''length'' then VNum (int (length xs)) else lookup ps k)
           | None \<Rightarrow> VUndef)
      | VStr s \<Rightarrow>
          (case parse_index k of
             Some i \<Rightarrow> if i < length s then VStr [s ! i] else VUndef
           | None \<Rightarrow> if k = ''length'' then VNum (int (length s)) else VUndef)
      | _ \<Rightarrow> VUndef)"

text \<open>
  \<open>base[key] = x\<close>. The module is strict-mode code, so the assignment throws on a base
  that is not an object.
\<close>

definition set_prop :: "runtime \<Rightarrow> heap \<Rightarrow> val \<Rightarrow> string \<Rightarrow> val \<Rightarrow> heap \<times> exn option" where
  "set_prop rt h base k x =
     (case base of
        VRef a \<Rightarrow>
          (case cell_at h a of
             Some (Obj ps) \<Rightarrow> (h[a := Obj (obj_put ps k x)], None)
           | Some (Arr xs ps) \<Rightarrow>
               (case parse_index k of
                  Some i \<Rightarrow> (h[a := Arr (arr_put xs i x) ps], None)
                | None \<Rightarrow>
                    if k = ''length'' then
                      (case set_array_length rt h xs x of
                         Inl e \<Rightarrow> (h, Some e)
                       | Inr xs' \<Rightarrow> (h[a := Arr xs' ps], None))
                    else (h[a := Arr xs (obj_put ps k x)], None))
           | None \<Rightarrow> (h, Some TypeError))
      | _ \<Rightarrow> (h, Some TypeError))"

text \<open>\<open>arr.push(v)\<close>; a value without a \<open>push\<close> method makes the call throw.\<close>

definition array_push :: "heap \<Rightarrow> val \<Rightarrow> val \<Rightarrow> heap \<times> exn option" where
  "array_push h arr v =
     (case arr of
        VRef a \<Rightarrow>
          (case cell_at h a of
             Some (Arr xs ps) \<Rightarrow> (h[a := Arr (xs @ [v]) ps], None)
           | _ \<Rightarrow> (h, Some TypeError))
      | _ \<Rightarrow> (h, Some TypeError))"

section \<open>Path grammar and reader\<close>

datatype pmode = PProp | PIndex nat | PWildcard

text \<open>
  \<open>parseSeg\<close> matches the segment against \<open>^([^\[]+)(\[(\d*)\])?$\<close>: a non-empty key
  without \<open>[\<close>, then optionally \<open>[\<close>, digits, \<open>]\<close> up to the end. Without a match the whole
  segment is a plain key.
\<close>

definition parseSeg :: "string \<Rightarrow> string \<times> pmode" where
  "parseSeg seg =
     (let key = takeWhile (\<lambda>c. c \<noteq> CHR ''['') seg;
          rest = dropWhile (\<lambda>c. c \<noteq> CHR ''['') seg
      in if key = [] then (seg, PProp)
         else if rest = [] then (key, PProp)
         else if 2 \<le> length rest \<and> last rest = CHR '']'' \<and>
                 list_all is_digit (butlast (tl rest))
         then (if butlast (tl rest) = [] then (key, PWildcard)
               else (key, PIndex (nat_of_digits (butlast (tl rest)))))
         else (seg, PProp))"

datatype cursor = Scalar val | Flow "val list"

text \<open>The inner loop of the array flow: \<open>for (const item of current)\<close>, pushing to \<open>mapped\<close>.\<close>

fun flow_items :: "heap \<Rightarrow> string \<Rightarrow> pmode \<Rightarrow> val list \<Rightarrow> val list \<Rightarrow> val list" where
  "flow_items h key m [] mapped = mapped"
| "flow_items h key m (item # items) mapped =
     (if nullish item then flow_items h key m items mapped
      else flow_items h key m items
             (case m of
                PProp \<Rightarrow> mapped @ [get_prop h item key]
              | PIndex i \<Rightarrow>
                  if is_array h (get_prop h item key)
                  then mapped @ [nth_or_undef (elems h (get_prop h item key)) i]
                  else mapped @ [VUndef]
              | PWildcard \<Rightarrow>
                  if is_array h (get_prop h item key) then mapped @ elems h (get_prop h item key)
                  else if \<not> nullish (get_prop h item key) then mapped @ [get_prop h item key]
                  else mapped))"

text \<open>The loop over the segments; \<open>None\<close> is the early \<open>return undefined\<close>.\<close>

fun get_loop :: "heap \<Rightarrow> cursor \<Rightarrow> string list \<Rightarrow> cursor option" where
  "get_loop h cur [] = Some cur"
| "get_loop h (Scalar current) (s # rest) =
     (if nullish current then None
      else case snd (parseSeg s) of
             PProp \<Rightarrow> get_loop h (Scalar (get_prop h current (fst (parseSeg s)))) rest
           | PIndex i \<Rightarrow>
               if \<not> is_array h (get_prop h current (fst (parseSeg s))) then None
               else get_loop h
                      (Scalar (nth_or_undef (elems h (get_prop h current (fst (parseSeg s)))) i))
                      rest
           | PWildcard \<Rightarrow>
               get_loop h
                 (Flow (if is_array h (get_prop h current (fst (parseSeg s)))
                        then elems h (get_prop h current (fst (parseSeg s)))
                        else if nullish (get_prop h current (fst (parseSeg s))) then []
                        else [get_prop h current (fst (parseSeg s))]))
                 rest)"
| "get_loop h (Flow current) (s # rest) =
     get_loop h (Flow (flow_items h (fst (parseSeg s)) (snd (parseSeg s)) current [])) rest"

definition getValueByPath :: "heap \<Rightarrow> val \<Rightarrow> string \<Rightarrow> rval" where
  "getValueByPath h obj path =
     (if path = [] then Old VUndef
      else case get_loop h (Scalar obj) (split_dot path) of
             None \<Rightarrow> Old VUndef
           | Some (Scalar v) \<Rightarrow> Old v
           | Some (Flow xs) \<Rightarrow> New xs)"

section \<open>Path writer\<close>

text \<open>\<open>if (!Array.isArray(current[key])) current[key] = []\<close>\<close>

definition ensure_array :: "runtime \<Rightarrow> heap \<Rightarrow> val \<Rightarrow> string \<Rightarrow> heap \<times> exn option" where
  "ensure_array rt h current key =
     (if \<not> is_array h (get_prop h current key)
      then set_prop rt (fst (alloc h (Arr [] []))) current key (snd (alloc h (Arr [] [])))
      else (h, None))"

text \<open>\<open>if (!arr[0] || typeof arr[0] !== "object") arr[0] = {}\<close>, for \<open>arr = current[key]\<close>.\<close>

definition ensure_carrier :: "runtime \<Rightarrow> heap \<Rightarrow> val \<Rightarrow> heap \<times> exn option" where
  "ensure_carrier rt h arr =
     (if \<not> truthy (get_prop h arr ''0'') \<or> js_typeof (get_prop h arr ''0'') \<noteq> ''object''
      then set_prop rt (fst (alloc h (Obj []))) arr ''0'' (snd (alloc h (Obj [])))
      else (h, None))"

text \<open>\<open>if (current[key] == null || typeof current[key] !== "object") current[key] = {}\<close>\<close>

definition ensure_object :: "runtime \<Rightarrow> heap \<Rightarrow> val \<Rightarrow> string \<Rightarrow> heap \<times> exn option" where
  "ensure_object rt h current key =
     (if nullish (get_prop h current key) \<or> js_typeof (get_prop h current key) \<noteq> ''object''
      then set_prop rt (fst (alloc h (Obj []))) current key (snd (alloc h (Obj [])))
      else (h, None))"

text \<open>\<open>current[key] = value\<close>: a new array gets its address here.\<close>

definition assign :: "runtime \<Rightarrow> heap \<Rightarrow> val \<Rightarrow> string \<Rightarrow> rval \<Rightarrow> heap \<times> exn option" where
  "assign rt h current key value =
     (case value of
        Old v \<Rightarrow> set_prop rt h current key v
      | New xs \<Rightarrow> set_prop rt (fst (alloc h (Arr xs []))) current key (snd (alloc h (Arr xs []))))"

text \<open>
  The last segment is array-marked: \<open>current[key] = value.slice()\<close> for an array value,
  \<open>current[key].push(value)\<close> otherwise.
\<close>

definition write_last_array :: "runtime \<Rightarrow> heap \<Rightarrow> val \<Rightarrow> string \<Rightarrow> rval \<Rightarrow> heap \<times> exn option" where
  "write_last_array rt h current key value =
     (case value of
        New xs \<Rightarrow> assign rt h current key (New xs)
      | Old v \<Rightarrow>
          if is_array h v then assign rt h current key (New (elems h v))
          else array_push h (get_prop h current key) v)"

text \<open>
  The loop of \<open>setValueByPath\<close> over the segments, \<open>isLast\<close> being \<open>rest = []\<close>. The store
  is returned in every case, with the exception if one was thrown: what was written
  before a throw stays written.
\<close>

fun set_walk :: "runtime \<Rightarrow> heap \<Rightarrow> val \<Rightarrow> string list \<Rightarrow> rval \<Rightarrow> heap \<times> exn option" where
  "set_walk rt h current [] value = (h, None)"
| "set_walk rt h current (raw # rest) value =
     (if nullish current then (h, Some TypeError)
      else if ends_with ''[]'' raw then
        (case ensure_array rt h current (take (length raw - 2) raw) of
           (h1, Some e) \<Rightarrow> (h1, Some e)
         | (h1, None) \<Rightarrow>
             if rest = [] then write_last_array rt h1 current (take (length raw - 2) raw) value
             else
               (case ensure_carrier rt h1 (get_prop h1 current (take (length raw - 2) raw)) of
                  (h2, Some e) \<Rightarrow> (h2, Some e)
                | (h2, None) \<Rightarrow>
                    set_walk rt h2
                      (get_prop h2 (get_prop h2 current (take (length raw - 2) raw)) ''0'')
                      rest value))
      else if rest = [] then assign rt h current raw value
      else
        (case ensure_object rt h current raw of
           (h1, Some e) \<Rightarrow> (h1, Some e)
         | (h1, None) \<Rightarrow> set_walk rt h1 (get_prop h1 current raw) rest value))"

definition setValueByPath :: "runtime \<Rightarrow> heap \<Rightarrow> val \<Rightarrow> string \<Rightarrow> rval \<Rightarrow> heap \<times> exn option" where
  "setValueByPath rt h target path value =
     (if value = Old VUndef then (h, None)
      else set_walk rt h target (split_dot path) value)"

section \<open>Transform registry\<close>

text \<open>
  The white space and line terminators of the language among the code units below 256:
  tab, line feed, vertical tab, form feed, carriage return, space and no-break space.
\<close>

definition is_space :: "char \<Rightarrow> bool" where
  "is_space c =
     (c \<in> {CHR '' '', CHR 0x09, CHR 0x0A, CHR 0x0B, CHR 0x0C, CHR 0x0D, CHR 0xA0})"

definition trim :: "string \<Rightarrow> string" where
  "trim s = rev (dropWhile is_space (rev (dropWhile is_space s)))"

definition upper_char :: "char \<Rightarrow> char" where
  "upper_char c =
     (case map_of (zip ''abcdefghijklmnopqrstuvwxyz'' ''ABCDEFGHIJKLMNOPQRSTUVWXYZ'') c of
        Some u \<Rightarrow> u | None \<Rightarrow> c)"

definition is_ascii :: "char \<Rightarrow> bool" where
  "is_ascii c = ((of_char c :: nat) < 128)"

definition toUpperCase :: "runtime \<Rightarrow> string \<Rightarrow> string" where
  "toUpperCase rt s = (if list_all is_ascii s then map upper_char s else upper_non_ascii rt s)"

text \<open>\<open>String(code).trim().toUpperCase()\<close>, for a string.\<close>

definition normalize :: "runtime \<Rightarrow> string \<Rightarrow> string" where
  "normalize rt s = toUpperCase rt (trim s)"

definition fallback :: "(string \<times> string) list" where
  "fallback =
     [(''GB'', ''United Kingdom''), (''US'', ''United States''), (''PH'', ''Philippines''),
      (''CA'', ''Canada''), (''AU'', ''Australia'')]"

text \<open>\<open>fallback[normalized] || normalized\<close>\<close>

definition fallback_or :: "string \<Rightarrow> string" where
  "fallback_or normalized =
     (case map_of fallback normalized of
        Some name \<Rightarrow> if name \<noteq> [] then name else normalized
      | None \<Rightarrow> normalized)"

text \<open>
  The \<open>try\<close> block of \<open>countryFromISO\<close> begins with
  \<open>const dn = new Intl.DisplayNames ? new Intl.DisplayNames("en", {type: "region"}) : null\<close>.
  The operator \<open>new\<close> binds tighter than the conditional, so the condition is the
  construction \<open>new Intl.DisplayNames\<close> without arguments. It throws: a \<open>TypeError\<close> for
  the missing option \<open>type\<close>, and an error as well where \<open>Intl\<close> or \<open>Intl.DisplayNames\<close>
  does not exist. The \<open>catch\<close> swallows it.
\<close>

definition intl_probe :: "exn + unit" where
  "intl_probe = Inl TypeError"

text \<open>
  The body of \<open>countryFromISO\<close> after normalisation: the \<open>try\<close> block, which returns the
  looked-up name when it is non-empty and differs from the code, and below it the table.
\<close>

definition country_name :: "runtime \<Rightarrow> string \<Rightarrow> string" where
  "country_name rt normalized =
     (case intl_probe of
        Inl e \<Rightarrow> fallback_or normalized
      | Inr dn \<Rightarrow>
          (case region_name rt normalized of
             Some name \<Rightarrow>
               if name \<noteq> [] \<and> name \<noteq> normalized then name else fallback_or normalized
           | None \<Rightarrow> fallback_or normalized))"

text \<open>A registered function reads the store and its arguments; it returns or throws.\<close>

type_synonym jsfun = "heap \<Rightarrow> rval list \<Rightarrow> exn + rval"

definition countryFromISO :: "runtime \<Rightarrow> jsfun" where
  "countryFromISO rt h args =
     (let code = (case args of [] \<Rightarrow> Old VUndef | c # cs \<Rightarrow> c)
      in if code = Old VUndef \<or> code = Old VNull \<or> code = Old (VStr []) then Inr (Old VUndef)
         else case (case code of Old (VStr s) \<Rightarrow> Inr s | _ \<Rightarrow> to_String rt h code) of
                Inl e \<Rightarrow> Inl e
              | Inr s \<Rightarrow> Inr (Old (VStr (country_name rt (normalize rt s)))))"

type_synonym registry = "string \<Rightarrow> jsfun option"

text \<open>The functions the object \<open>transforms\<close> holds itself.\<close>

definition transforms :: "runtime \<Rightarrow> registry" where
  "transforms rt name = (if name = ''countryFromISO'' then Some (countryFromISO rt) else None)"

text \<open>
  \<open>transforms[fnName]\<close> followed by the test \<open>typeof fn !== "function"\<close>: the registry is
  an object literal, so the lookup finds its own functions and, for any other name, the
  functions it inherits from \<open>Object.prototype\<close>.
\<close>

definition registry_lookup ::
  "runtime \<Rightarrow> registry \<Rightarrow> string \<Rightarrow> (heap \<Rightarrow> rval list \<Rightarrow> exn + rval) option" where
  "registry_lookup rt reg name =
     (case reg name of Some fn \<Rightarrow> Some fn | None \<Rightarrow> inherited_function rt name)"

section \<open>Spec resolver\<close>

definition has_own :: "heap \<Rightarrow> val \<Rightarrow> string \<Rightarrow> bool" where
  "has_own h v k =
     (case v of
        VRef a \<Rightarrow>
          (case cell_at h a of
             Some (Obj ps) \<Rightarrow> k \<in> fst ` set ps
           | Some (Arr xs ps) \<Rightarrow>
               (case parse_index k of
                  Some i \<Rightarrow> i < length xs
                | None \<Rightarrow> k = ''length'' \<or> k \<in> fst ` set ps)
           | None \<Rightarrow> False)
      | _ \<Rightarrow> False)"

text \<open>
  \<open>spec && typeof spec === "object" && !Array.isArray(spec) &&
  Object.prototype.hasOwnProperty.call(spec, k)\<close>
\<close>

definition plain_object_with :: "heap \<Rightarrow> val \<Rightarrow> string \<Rightarrow> bool" where
  "plain_object_with h spec k =
     (truthy spec \<and> js_typeof spec = ''object'' \<and> \<not> is_array h spec \<and> has_own h spec k)"

definition resolveSpec :: "heap \<Rightarrow> val \<Rightarrow> val \<Rightarrow> rval" where
  "resolveSpec h input spec =
     (if nullish spec \<or> spec = VStr [] then Old VUndef
      else if plain_object_with h spec ''$literal'' then Old (get_prop h spec ''$literal'')
      else case spec of
             VStr s \<Rightarrow>
               if starts_with ''='' s
               then (if starts_with ''=='' s then Old (VStr (drop 1 s)) else Old (VStr (drop 1 s)))
               else getValueByPath h input s
           | _ \<Rightarrow> Old spec)"

section \<open>Mapping interpreter\<close>

datatype warning = UnknownTransform string | TransformFailed string exn

text \<open>The key under which \<open>transforms[fnName]\<close> looks the function up.\<close>

definition prop_key :: "runtime \<Rightarrow> heap \<Rightarrow> val \<Rightarrow> exn + string" where
  "prop_key rt h v = (case v of VStr s \<Rightarrow> Inr s | _ \<Rightarrow> to_String rt h (Old v))"

text \<open>The argument list of a transform directive.\<close>

definition directive_args :: "heap \<Rightarrow> val \<Rightarrow> val \<Rightarrow> rval list" where
  "directive_args h input sourceSpec =
     (if has_own h sourceSpec ''$args'' then
        map (resolveSpec h input)
          (if is_array h (get_prop h sourceSpec ''$args'')
           then elems h (get_prop h sourceSpec ''$args'')
           else [get_prop h sourceSpec ''$args''])
      else if has_own h sourceSpec ''$path'' then
        [resolveSpec h input (get_prop h sourceSpec ''$path'')]
      else [])"

text \<open>
  One entry is processed to a store, the warnings it prints and the exception that
  leaves \<open>transformOne\<close>, if any.
\<close>

type_synonym outcome = "heap \<times> warning list \<times> exn option"

text \<open>
  The \<open>try\<close> block of a directive: \<open>const out = fn(...args); if (out !== undefined)
  setValueByPath(result, targetPath, out)\<close>, with whatever is thrown caught and reported.
\<close>

definition invoke :: "runtime \<Rightarrow> heap \<Rightarrow> val \<Rightarrow> string \<Rightarrow> string \<Rightarrow> jsfun \<Rightarrow> rval list \<Rightarrow> outcome" where
  "invoke rt h result targetPath fnName fn args =
     (case fn h args of
        Inl e \<Rightarrow> (h, [TransformFailed fnName e], None)
      | Inr out \<Rightarrow>
          if out \<noteq> Old VUndef then
            (case setValueByPath rt h result targetPath out of
               (h', Some e) \<Rightarrow> (h', [TransformFailed fnName e], None)
             | (h', None) \<Rightarrow> (h', [], None))
          else (h, [], None))"

text \<open>A call of \<open>setValueByPath\<close> outside the \<open>try\<close> block.\<close>

definition write_entry :: "runtime \<Rightarrow> heap \<Rightarrow> val \<Rightarrow> string \<Rightarrow> rval \<Rightarrow> outcome" where
  "write_entry rt h result targetPath value =
     (fst (setValueByPath rt h result targetPath value), [],
      snd (setValueByPath rt h result targetPath value))"

text \<open>The body of the loop of \<open>transformOne\<close>.\<close>

definition entry_step ::
  "runtime \<Rightarrow> registry \<Rightarrow> val \<Rightarrow> val \<Rightarrow> heap \<Rightarrow> string \<times> val \<Rightarrow> outcome" where
  "entry_step rt reg input result h entry =
     (let targetPath = fst entry; sourceSpec = snd entry
      in if sourceSpec = VStr [] \<or> sourceSpec = VNull then (h, [], None)
         else if plain_object_with h sourceSpec ''$transform'' then
           (case prop_key rt h (get_prop h sourceSpec ''$transform'') of
              Inl e \<Rightarrow> (h, [], Some e)
            | Inr fnName \<Rightarrow>
                (case registry_lookup rt reg fnName of
                   None \<Rightarrow> (h, [UnknownTransform fnName], None)
                 | Some fn \<Rightarrow>
                     invoke rt h result targetPath fnName fn
                       (directive_args h input sourceSpec)))
         else if plain_object_with h sourceSpec ''$literal'' then
           write_entry rt h result targetPath (Old (get_prop h sourceSpec ''$literal''))
         else case sourceSpec of
                VStr s \<Rightarrow>
                  if starts_with ''='' s then
                    write_entry rt h result targetPath
                      (Old (VStr (if starts_with ''=='' s then drop 1 s else drop 1 s)))
                  else if getValueByPath h input s = Old VUndef then (h, [], None)
                  else write_entry rt h result targetPath (getValueByPath h input s)
              | _ \<Rightarrow> write_entry rt h result targetPath (Old sourceSpec))"

text \<open>The loop over the entries; an exception that is not caught ends it.\<close>

fun run_entries ::
  "runtime \<Rightarrow> registry \<Rightarrow> val \<Rightarrow> val \<Rightarrow> heap \<Rightarrow> (string \<times> val) list \<Rightarrow> outcome" where
  "run_entries rt reg input result h [] = (h, [], None)"
| "run_entries rt reg input result h (entry # entries) =
     (case entry_step rt reg input result h entry of
        (h1, ws1, Some e) \<Rightarrow> (h1, ws1, Some e)
      | (h1, ws1, None) \<Rightarrow>
          (case run_entries rt reg input result h1 entries of
             (h2, ws2, r) \<Rightarrow> (h2, ws1 @ ws2, r)))"

definition digit_char :: "nat \<Rightarrow> char" where
  "digit_char n = ''0123456789'' ! n"

function str_of_nat :: "nat \<Rightarrow> string" where
  "str_of_nat n =
     (if n < 10 then [digit_char n] else str_of_nat (n div 10) @ [digit_char (n mod 10)])"
  by pat_completeness auto
termination
  by (relation "measure id") auto

text \<open>
  The order in which the own properties of an object are listed: the keys that are array
  indices (canonical decimal numbers below \<open>2^32 - 1\<close>) first, in ascending order, then
  the other keys in insertion order.
\<close>

definition is_index_key :: "string \<Rightarrow> bool" where
  "is_index_key k = (case parse_index k of Some n \<Rightarrow> n < 4294967295 | None \<Rightarrow> False)"

definition index_of_key :: "string \<Rightarrow> nat" where
  "index_of_key k = (case parse_index k of Some n \<Rightarrow> n | None \<Rightarrow> 0)"

definition own_property_order :: "(string \<times> val) list \<Rightarrow> (string \<times> val) list" where
  "own_property_order ps =
     sort_key (\<lambda>p. index_of_key (fst p)) (filter (\<lambda>p. is_index_key (fst p)) ps) @
     filter (\<lambda>p. \<not> is_index_key (fst p)) ps"

text \<open>\<open>Object.entries(mapping)\<close>\<close>

definition object_entries :: "heap \<Rightarrow> val \<Rightarrow> exn + (string \<times> val) list" where
  "object_entries h v =
     (case v of
        VUndef \<Rightarrow> Inl TypeError
      | VNull \<Rightarrow> Inl TypeError
      | VRef a \<Rightarrow>
          (case cell_at h a of
             Some (Obj ps) \<Rightarrow> Inr (own_property_order ps)
           | Some (Arr xs ps) \<Rightarrow>
               Inr (zip (map str_of_nat [0..<length xs]) xs @ own_property_order ps)
           | None \<Rightarrow> Inr [])
      | VStr s \<Rightarrow> Inr (zip (map str_of_nat [0..<length s]) (map (\<lambda>c. VStr [c]) s))
      | _ \<Rightarrow> Inr [])"

text \<open>
  \<open>transformOne\<close> returns the store, the warnings and either the exception that left it
  or the output record.
\<close>

definition transformOne ::
  "runtime \<Rightarrow> registry \<Rightarrow> heap \<Rightarrow> val \<Rightarrow> val \<Rightarrow> heap \<times> warning list \<times> (exn + val)" where
  "transformOne rt reg h input mapping =
     (let h0 = fst (alloc h (Obj [])); result = snd (alloc h (Obj []))
      in case object_entries h0 mapping of
           Inl e \<Rightarrow> (h0, [], Inl e)
         | Inr entries \<Rightarrow>
             (case run_entries rt reg input result h0 entries of
                (h1, ws, Some e) \<Rightarrow> (h1, ws, Inl e)
              | (h1, ws, None) \<Rightarrow> (h1, ws, Inr result)))"

text \<open>
  \<open>input.map((item) => transformOne(item, mapping))\<close>: the elements at the positions
  \<open>k\<close>, \<open>k + 1\<close>, \<dots> below the length the array had at the call, each read when its turn
  comes; a position the array no longer has is left out.
\<close>

fun map_items ::
  "runtime \<Rightarrow> registry \<Rightarrow> heap \<Rightarrow> val \<Rightarrow> val \<Rightarrow> nat \<Rightarrow> nat \<Rightarrow>
     heap \<times> warning list \<times> (exn + val list)" where
  "map_items rt reg h input mapping k 0 = (h, [], Inr [])"
| "map_items rt reg h input mapping k (Suc n) =
     (if k < length (elems h input) then
        (case transformOne rt reg h (elems h input ! k) mapping of
           (h1, ws1, Inl e) \<Rightarrow> (h1, ws1, Inl e)
         | (h1, ws1, Inr r) \<Rightarrow>
             (case map_items rt reg h1 input mapping (Suc k) n of
                (h2, ws2, Inl e) \<Rightarrow> (h2, ws1 @ ws2, Inl e)
              | (h2, ws2, Inr rs) \<Rightarrow> (h2, ws1 @ ws2, Inr (r # rs))))
      else
        (case map_items rt reg h input mapping (Suc k) n of
           (h2, ws2, Inl e) \<Rightarrow> (h2, ws2, Inl e)
         | (h2, ws2, Inr rs) \<Rightarrow> (h2, ws2, Inr (VUndef # rs))))"

definition transform ::
  "runtime \<Rightarrow> registry \<Rightarrow> heap \<Rightarrow> val \<Rightarrow> val \<Rightarrow> heap \<times> warning list \<times> (exn + rval)" where
  "transform rt reg h input mapping =
     (if is_array h input then
        (case map_items rt reg h input mapping 0 (length (elems h input)) of
           (h1, ws, Inl e) \<Rightarrow> (h1, ws, Inl e)
         | (h1, ws, Inr rs) \<Rightarrow> (h1, ws, Inr (New rs)))
      else
        (case transformOne rt reg h input mapping of
           (h1, ws, Inl e) \<Rightarrow> (h1, ws, Inl e)
         | (h1, ws, Inr r) \<Rightarrow> (h1, ws, Inr (Old r))))"

text \<open>
  A runtime for the concrete evaluations below. Of its services it gives what the
  evaluated inputs reach, the conversion of an object to a string: \<open>"[object Object]"\<close>,
  and a \<open>TypeError\<close> for an object with a \<open>toString\<close> property of its own (which, being
  data, is not a function, and the inherited \<open>valueOf\<close> returns the object). What no
  evaluation reaches is filled in arbitrarily: the other conversions throw, there is
  no inherited function and no upper-casing beyond ASCII.
\<close>

definition basic_runtime :: runtime where
  "basic_runtime =
     \<lparr> region_name = (\<lambda>s. None),
       inherited_function = (\<lambda>name. None),
       upper_non_ascii = (\<lambda>s. s),
       to_String =
         (\<lambda>h v. case v of
                  Old (VRef a) \<Rightarrow>
                    (case cell_at h a of
                       Some (Obj ps) \<Rightarrow>
                         if map_of ps ''toString'' \<noteq> None then Inl TypeError
                         else Inr ''[object Object]''
                     | _ \<Rightarrow> Inl TypeError)
                | _ \<Rightarrow> Inl TypeError),
       set_array_length = (\<lambda>h xs v. Inl RangeError) \<rparr>"

text \<open>
  The same runtime with the inherited function that the evaluation for claim C6
  reaches: \<open>Object.prototype.toString\<close>, which returns \<open>"[object Undefined]"\<close> when it is
  called without a receiver, as \<open>fn(...args)\<close> calls it.
\<close>

definition inheriting_runtime :: runtime where
  "inheriting_runtime =
     basic_runtime
       \<lparr> inherited_function :=
           (\<lambda>name. if name = ''toString''
                   then Some (\<lambda>h args. Inr (Old (VStr ''[object Undefined]'')))
                   else None) \<rparr>"

section \<open>Notions of the specification\<close>

text \<open>
  The sequence a wildcard segment takes from the value found at its key, in the
  specification's words: the members of an array, nothing for \<open>null\<close> or an absent value,
  the value itself otherwise.
\<close>

definition wildcard_sequence :: "heap \<Rightarrow> val \<Rightarrow> val list" where
  "wildcard_sequence h v = (if is_array h v then elems h v else if nullish v then [] else [v])"

text \<open>
  A segment that reader and writer treat alike: it does not end in \<open>[]\<close> and the reader
  does not take it for an indexed segment \<open>key[digits]\<close>. The key \<open>__proto__\<close> is left out
  as well: an assignment to it goes to the accessor that every object inherits, which
  is not a property of the object and which the store does not hold.
\<close>

definition plain_segment :: "string \<Rightarrow> bool" where
  "plain_segment seg =
     (\<not> ends_with ''[]'' seg \<and> snd (parseSeg seg) = PProp \<and> seg \<noteq> ''__proto__'')"

text \<open>
  A normalised code that neither the locale-aware lookup nor the fallback table
  resolves: the \<open>try\<close> block threw, or the name it found is empty or the code itself, and
  the table has no entry.
\<close>

definition unresolved :: "runtime \<Rightarrow> string \<Rightarrow> bool" where
  "unresolved rt code =
     ((case intl_probe of
         Inl e \<Rightarrow> True
       | Inr dn \<Rightarrow>
           (case region_name rt code of None \<Rightarrow> True | Some name \<Rightarrow> name = [] \<or> name = code)) \<and>
      map_of fallback code = None)"

section \<open>Stores of the examples\<close>

text \<open>\<open>{a: [{b: [1, 2]}, {b: [3]}]}\<close> at address 0.\<close>

definition nested_store :: heap where
  "nested_store =
     [Obj [(''a'', VRef 1)], Arr [VRef 2, VRef 4] [], Obj [(''b'', VRef 3)],
      Arr [VNum 1, VNum 2] [], Obj [(''b'', VRef 5)], Arr [VNum 3] []]"

text \<open>\<open>{x: {v: 7}}\<close> at address 0.\<close>

definition scalar_store :: heap where
  "scalar_store = [Obj [(''x'', VRef 1)], Obj [(''v'', VNum 7)]]"

text \<open>
  The input \<open>[{e: "a"}, {e: "b"}]\<close> at address 0 and the mapping
  \<open>{"emails": [], "emails[].email": "e"}\<close> at address 3, its array literal at address 4.
\<close>

definition shared_store :: heap where
  "shared_store =
     [Arr [VRef 1, VRef 2] [], Obj [(''e'', VStr ''a'')], Obj [(''e'', VStr ''b'')],
      Obj [(''emails'', VRef 4), (''emails[].email'', VStr ''e'')], Arr [] []]"

text \<open>
  The input \<open>{}\<close> at address 0, the directive \<open>{"$transform": "toString"}\<close> at
  address 1, the mapping \<open>{"x": {"$transform": "toString"}}\<close> at address 2 and the same
  mapping without its entry, \<open>{}\<close>, at address 3.
\<close>

definition inherited_name_store :: heap where
  "inherited_name_store =
     [Obj [], Obj [(''$transform'', VStr ''toString'')], Obj [(''x'', VRef 1)], Obj []]"

text \<open>The object \<open>{toString: 1}\<close> at address 0.\<close>

definition odd_code_store :: heap where
  "odd_code_store = [Obj [(''toString'', VNum 1)]]"

text \<open>
  The input \<open>{code: "GB", name: "x"}\<close> at address 0 and, at address 1, a directive with
  both \<open>$args\<close> (the string \<open>"code"\<close>, not an array) and \<open>$path\<close>.
\<close>

definition directive_store :: heap where
  "directive_store =
     [Obj [(''code'', VStr ''GB''), (''name'', VStr ''x'')],
      Obj [(''$transform'', VStr ''countryFromISO''), (''$args'', VStr ''code''),
           (''$path'', VStr ''name'')],
      Obj []]"

section \<open>Lemmas on strings and segments\<close>

lemma split_on_nonempty: "split_on d acc s \<noteq> []"
  by (induction s arbitrary: acc) auto

lemma split_on_no_delim: "d \<notin> set s \<Longrightarrow> split_on d acc s = [rev acc @ s]"
  by (induction s arbitrary: acc) auto

lemma split_dot_single: "CHR ''.'' \<notin> set s \<Longrightarrow> split_dot s = [s]"
  by (simp add: split_dot_def split_on_no_delim)

lemma takeWhile_upto: "c \<notin> set k \<Longrightarrow> takeWhile (\<lambda>x. x \<noteq> c) (k @ c # r) = k"
  by (induction k) auto

lemma dropWhile_upto: "c \<notin> set k \<Longrightarrow> dropWhile (\<lambda>x. x \<noteq> c) (k @ c # r) = c # r"
  by (induction k) auto

lemma parseSeg_wildcard:
  assumes "key \<noteq> []" "CHR ''['' \<notin> set key"
  shows "parseSeg (key @ ''[]'') = (key, PWildcard)"
proof -
  have t: "takeWhile (\<lambda>c. c \<noteq> CHR ''['') (key @ ''[]'') = key"
    using assms(2) by (simp add: takeWhile_upto)
  have d: "dropWhile (\<lambda>c. c \<noteq> CHR ''['') (key @ ''[]'') = ''[]''"
    using assms(2) by (simp add: dropWhile_upto)
  show ?thesis unfolding parseSeg_def t d using assms(1) by simp
qed

lemma parseSeg_prop_key: "snd (parseSeg seg) = PProp \<Longrightarrow> fst (parseSeg seg) = seg"
proof -
  assume a: "snd (parseSeg seg) = PProp"
  have td: "takeWhile (\<lambda>c. c \<noteq> CHR ''['') seg @ dropWhile (\<lambda>c. c \<noteq> CHR ''['') seg = seg"
    by simp
  show ?thesis
  proof (cases "dropWhile (\<lambda>c. c \<noteq> CHR ''['') seg = []")
    case True
    with td have "takeWhile (\<lambda>c. c \<noteq> CHR ''['') seg = seg" by (metis append_Nil2)
    with True show ?thesis by (simp add: parseSeg_def Let_def)
  next
    case False
    with a show ?thesis by (auto simp: parseSeg_def Let_def split: if_splits)
  qed
qed

lemma ends_with_brackets: "ends_with ''[]'' (key @ ''[]'')"
  by (simp add: ends_with_def)

lemma parse_index_0: "parse_index ''0'' = Some 0"
  by (simp add: parse_index_def is_digit_def nat_of_digits_def digit_val_def)

section \<open>Lemmas on the store\<close>

lemma cell_at_update:
  "cell_at (h[a := c]) b =
     (if b < length h then (if a = b then Some c else Some (h ! b)) else None)"
  by (simp add: cell_at_def)

lemma cell_at_snoc:
  "cell_at (h @ [c]) b =
     (if b < length h then Some (h ! b) else if b = length h then Some c else None)"
  by (auto simp: cell_at_def nth_append)

lemma cell_at_Some_less: "cell_at h a = Some c \<Longrightarrow> a < length h"
  by (simp add: cell_at_def split: if_splits)

lemma cell_at_nth: "cell_at h a = Some c \<Longrightarrow> h ! a = c"
  by (simp add: cell_at_def split: if_splits)

lemma lookup_obj_put: "lookup (obj_put ps k v) k' = (if k' = k then v else lookup ps k')"
  by (induction ps) (auto simp: lookup_def)

lemma lookup_absent: "k \<notin> fst ` set ps \<Longrightarrow> lookup ps k = VUndef"
  by (simp add: lookup_def map_of_eq_None_iff[THEN iffD2])

lemma get_prop_obj: "cell_at h a = Some (Obj ps) \<Longrightarrow> get_prop h (VRef a) k = lookup ps k"
  by (simp add: get_prop_def)

lemma set_prop_obj:
  "cell_at h a = Some (Obj ps) \<Longrightarrow>
     set_prop rt h (VRef a) k x = (h[a := Obj (obj_put ps k x)], None)"
  by (simp add: set_prop_def)

lemma has_own_obj:
  "cell_at h a = Some (Obj ps) \<Longrightarrow> has_own h (VRef a) k = (map_of ps k \<noteq> None)"
  by (simp add: has_own_def map_of_eq_None_iff)

lemma get_prop_arr0:
  "cell_at h r = Some (Arr xs qs) \<Longrightarrow> get_prop h (VRef r) ''0'' = nth_or_undef xs 0"
  by (simp add: get_prop_def parse_index_0)

lemma set_prop_arr0:
  "cell_at h r = Some (Arr xs qs) \<Longrightarrow>
     set_prop rt h (VRef r) ''0'' x = (h[r := Arr (arr_put xs 0 x) qs], None)"
  by (simp add: set_prop_def parse_index_0)

lemma arr_put_0: "nth_or_undef (arr_put xs 0 x) 0 = x"
  by (cases xs) (simp_all add: arr_put_def nth_or_undef_def)

lemma is_array_iff: "is_array h v = (\<exists>r xs qs. v = VRef r \<and> cell_at h r = Some (Arr xs qs))"
  by (auto simp: is_array_def split: val.splits option.splits cell.splits)

lemma not_ref_iff: "(\<not> truthy x \<or> js_typeof x \<noteq> ''object'') = (\<forall>o'. x \<noteq> VRef o')"
  by (cases x) auto

lemma nullish_or_not_object_iff:
  "(nullish x \<or> js_typeof x \<noteq> ''object'') = (\<forall>o'. x \<noteq> VRef o')"
  by (cases x) (auto simp: nullish_def)

section \<open>Lemmas on the reader, the writer and the interpreter\<close>

lemma flow_items_wildcard:
  "flow_items h key PWildcard xs acc =
     acc @ concat (map (\<lambda>item. wildcard_sequence h (get_prop h item key))
                    (filter (\<lambda>x. \<not> nullish x) xs))"
  by (induction xs arbitrary: acc) (simp_all add: wildcard_sequence_def)

lemma read_missing_key:
  assumes "CHR ''.'' \<notin> set k" "snd (parseSeg k) = PProp" "get_prop h obj k = VUndef"
  shows "getValueByPath h obj k = Old VUndef"
  using assms
  by (simp add: getValueByPath_def split_dot_single parseSeg_prop_key)

lemma read_bad_index:
  assumes "parseSeg seg = (k, PIndex n)" "CHR ''.'' \<notin> set seg"
    "\<not> is_array h (get_prop h obj k) \<or> length (elems h (get_prop h obj k)) \<le> n"
  shows "getValueByPath h obj seg = Old VUndef"
  using assms
  by (auto simp: getValueByPath_def split_dot_single nth_or_undef_def)

text \<open>
  Writing along plain segments from an empty object creates one new object per
  segment, touches no other cell, and the reader finds the value along the same segments.
\<close>

lemma set_get_walk:
  assumes "segs \<noteq> []" "\<forall>seg\<in>set segs. plain_segment seg" "cell_at h a = Some (Obj [])"
  shows "\<exists>h'. set_walk rt h (VRef a) segs (Old v) = (h', None) \<and> length h \<le> length h' \<and>
              (\<forall>b<length h. b \<noteq> a \<longrightarrow> h' ! b = h ! b) \<and>
              get_loop h' (Scalar (VRef a)) segs = Some (Scalar v)"
  using assms
proof (induction segs arbitrary: h a rule: list_nonempty_induct)
  case (single seg)
  from single have ps: "\<not> ends_with ''[]'' seg" "snd (parseSeg seg) = PProp"
    by (simp_all add: plain_segment_def)
  have k: "fst (parseSeg seg) = seg" using ps(2) by (rule parseSeg_prop_key)
  have al: "a < length h" using single(2) by (rule cell_at_Some_less)
  let ?h' = "h[a := Obj [(seg, v)]]"
  have s: "set_walk rt h (VRef a) [seg] (Old v) = (?h', None)"
    using ps(1) single(2) by (simp add: nullish_def assign_def set_prop_obj)
  have c: "cell_at ?h' a = Some (Obj [(seg, v)])" using al by (simp add: cell_at_update)
  have g: "get_loop ?h' (Scalar (VRef a)) [seg] = Some (Scalar v)"
    using ps(2) k by (simp add: nullish_def get_prop_obj[OF c] lookup_def)
  show ?case using s g by simp
next
  case (cons seg rest)
  from cons.prems have ps: "\<not> ends_with ''[]'' seg" "snd (parseSeg seg) = PProp"
    by (simp_all add: plain_segment_def)
  have k: "fst (parseSeg seg) = seg" using ps(2) by (rule parseSeg_prop_key)
  have al: "a < length h" using cons.prems(2) by (rule cell_at_Some_less)
  let ?n = "length h"
  let ?h1 = "(h @ [Obj []])[a := Obj [(seg, VRef ?n)]]"
  have c0: "cell_at (h @ [Obj []]) a = Some (Obj [])"
    using al cons.prems(2) by (simp add: cell_at_snoc cell_at_nth)
  have eo: "ensure_object rt h (VRef a) seg = (?h1, None)"
    using cons.prems(2) c0
    by (simp add: ensure_object_def get_prop_obj lookup_def nullish_def alloc_def set_prop_obj)
  have ca: "cell_at ?h1 a = Some (Obj [(seg, VRef ?n)])"
    using al by (simp add: cell_at_update)
  have cn: "cell_at ?h1 ?n = Some (Obj [])"
    using al by (simp add: cell_at_update cell_at_snoc)
  have gp: "get_prop ?h1 (VRef a) seg = VRef ?n"
    by (simp add: get_prop_obj[OF ca] lookup_def)
  from cons.IH[OF _ cn] cons.prems(1) obtain h' where
    h': "set_walk rt ?h1 (VRef ?n) rest (Old v) = (h', None)" "length ?h1 \<le> length h'"
        "\<forall>b<length ?h1. b \<noteq> ?n \<longrightarrow> h' ! b = ?h1 ! b"
        "get_loop h' (Scalar (VRef ?n)) rest = Some (Scalar v)"
    by auto
  have s: "set_walk rt h (VRef a) (seg # rest) (Old v) = (h', None)"
    using ps(1) cons.hyps eo gp h'(1) by (simp add: nullish_def)
  have "h' ! a = ?h1 ! a" using h'(3) al by simp
  then have ca': "cell_at h' a = Some (Obj [(seg, VRef ?n)])"
    using h'(2) al by (simp add: cell_at_def)
  have gp': "get_prop h' (VRef a) seg = VRef ?n"
    by (simp add: get_prop_obj[OF ca'] lookup_def)
  have g: "get_loop h' (Scalar (VRef a)) (seg # rest) = Some (Scalar v)"
    using ps(2) k gp' h'(4) by (simp add: nullish_def)
  have fr: "\<forall>b<length h. b \<noteq> a \<longrightarrow> h' ! b = h ! b"
  proof (intro allI impI)
    fix b assume b: "b < length h" "b \<noteq> a"
    then have "h' ! b = ?h1 ! b" using h'(3) by simp
    also have "\<dots> = h ! b" using b by (simp add: nth_append)
    finally show "h' ! b = h ! b" .
  qed
  have "length h \<le> length h'" using h'(2) by simp
  with s g fr show ?case by simp
qed

lemma run_entries_append:
  "run_entries rt reg input result h (es1 @ es2) =
     (case run_entries rt reg input result h es1 of
        (h1, ws1, Some e) \<Rightarrow> (h1, ws1, Some e)
      | (h1, ws1, None) \<Rightarrow>
          (case run_entries rt reg input result h1 es2 of
             (h2, ws2, r) \<Rightarrow> (h2, ws1 @ ws2, r)))"
  by (induction es1 arbitrary: h) (auto split: prod.splits option.splits)

lemma entry_step_skipped:
  assumes "plain_object_with h spec ''$transform''"
    and "prop_key rt h (get_prop h spec ''$transform'') = Inr name"
    and "registry_lookup rt reg name = None \<or>
         (\<exists>fn e. registry_lookup rt reg name = Some fn \<and>
                  fn h (directive_args h input spec) = Inl e)"
  shows "\<exists>w. entry_step rt reg input result h (tp, spec) = (h, [w], None) \<and>
             (w = UnknownTransform name \<or> (\<exists>e. w = TransformFailed name e))"
proof -
  have ns: "spec \<noteq> VStr [] \<and> spec \<noteq> VNull"
    using assms(1) by (auto simp: plain_object_with_def)
  from assms(3) show ?thesis
  proof
    assume "registry_lookup rt reg name = None"
    then show ?thesis using ns assms(1,2) by (simp add: entry_step_def)
  next
    assume "\<exists>fn e. registry_lookup rt reg name = Some fn \<and>
                   fn h (directive_args h input spec) = Inl e"
    then obtain fn e where "registry_lookup rt reg name = Some fn"
      "fn h (directive_args h input spec) = Inl e"
      by blast
    then show ?thesis using ns assms(1,2) by (simp add: entry_step_def invoke_def)
  qed
qed

text \<open>
  A directive that the interpreter reaches and whose name the lookup does not find, or
  whose function throws on the resolved arguments, changes nothing but the warnings:
  \<open>transform\<close> ends in the same store and with the same result as for a mapping with the
  same entries but this one, and prints one more warning.
\<close>

lemma skipped_directive_changes_nothing:
  assumes m1: "object_entries (h @ [Obj []]) (VRef m1) = Inr (es1 @ (tp, spec) # es2)"
    and m2: "object_entries (h @ [Obj []]) (VRef m2) = Inr (es1 @ es2)"
    and rec: "\<not> is_array h input"
    and reach: "run_entries rt reg input (VRef (length h)) (h @ [Obj []]) es1 = (h1, ws1, None)"
    and dir: "plain_object_with h1 spec ''$transform''"
    and key: "prop_key rt h1 (get_prop h1 spec ''$transform'') = Inr name"
    and fail: "registry_lookup rt reg name = None \<or>
               (\<exists>fn e. registry_lookup rt reg name = Some fn \<and>
                        fn h1 (directive_args h1 input spec) = Inl e)"
  shows "\<exists>hf ws2 w r.
           transform rt reg h input (VRef m1) = (hf, ws1 @ w # ws2, r) \<and>
           transform rt reg h input (VRef m2) = (hf, ws1 @ ws2, r) \<and>
           (w = UnknownTransform name \<or> (\<exists>e. w = TransformFailed name e))"
proof -
  let ?res = "VRef (length h)"
  let ?h0 = "h @ [Obj []]"
  from entry_step_skipped[of h1 spec rt name reg input ?res tp] dir key fail obtain w where
    w: "entry_step rt reg input ?res h1 (tp, spec) = (h1, [w], None)"
       "w = UnknownTransform name \<or> (\<exists>e. w = TransformFailed name e)" by blast
  obtain hf ws2 x where rest: "run_entries rt reg input ?res h1 es2 = (hf, ws2, x)"
    by (cases "run_entries rt reg input ?res h1 es2") auto
  have r1: "run_entries rt reg input ?res ?h0 (es1 @ (tp, spec) # es2) = (hf, ws1 @ w # ws2, x)"
    using reach w(1) rest by (simp add: run_entries_append)
  have r2: "run_entries rt reg input ?res ?h0 (es1 @ es2) = (hf, ws1 @ ws2, x)"
    using reach rest by (simp add: run_entries_append)
  have t1: "transformOne rt reg h input (VRef m1) =
              (hf, ws1 @ w # ws2, case x of Some e \<Rightarrow> Inl e | None \<Rightarrow> Inr ?res)"
    using m1 r1 by (simp add: transformOne_def alloc_def split: option.splits)
  have t2: "transformOne rt reg h input (VRef m2) =
              (hf, ws1 @ ws2, case x of Some e \<Rightarrow> Inl e | None \<Rightarrow> Inr ?res)"
    using m2 r2 by (simp add: transformOne_def alloc_def split: option.splits)
  show ?thesis using rec t1 t2 w(2)
    by (cases x) (auto simp: transform_def)
qed

text \<open>
  For an array input, \<open>transform\<close> returns, unless an exception leaves it, a new array
  with one position per position of the input.
\<close>

lemma map_items_length:
  "map_items rt reg h input mapping k n = (h', ws, Inr rs) \<Longrightarrow> length rs = n"
proof (induction n arbitrary: h k h' ws rs)
  case 0
  then show ?case by simp
next
  case (Suc n)
  show ?case
  proof (cases "k < length (elems h input)")
    case True
    with Suc.prems obtain h1 ws1 r h2 ws2 rs' where
      "map_items rt reg h1 input mapping (Suc k) n = (h2, ws2, Inr rs')" "rs = r # rs'"
      by (auto split: prod.splits sum.splits)
    with Suc.IH show ?thesis by auto
  next
    case False
    with Suc.prems obtain h2 ws2 rs' where
      "map_items rt reg h input mapping (Suc k) n = (h2, ws2, Inr rs')" "rs = VUndef # rs'"
      by (auto split: prod.splits sum.splits)
    with Suc.IH show ?thesis by auto
  qed
qed

lemma transform_array_length:
  assumes "is_array h input" "transform rt reg h input mapping = (h', ws, Inr r)"
  shows "\<exists>rs. r = New rs \<and> length rs = length (elems h input)"
  using assms
  by (auto simp: transform_def split: prod.splits sum.splits dest: map_items_length)

section \<open>The claims\<close>

subsection \<open>C1: writing and reading back\<close>

text \<open>
  Claim C1 says that for every path without a wildcard segment, writing a value into
  an empty object and reading the path back returns the value. It fails for a path
  with an indexed segment and for the empty path: the writer takes \<open>a[0]\<close> for one key,
  the reader for the index 0 under the key \<open>a\<close>; the writer stores under the empty key,
  the reader returns \<open>undefined\<close> at once for the empty path.
\<close>

theorem roundtrip_counterexample:
  "split_dot ''a[0]'' = [''a[0]''] \<and> \<not> ends_with ''[]'' ''a[0]'' \<and>
   setValueByPath basic_runtime [Obj []] (VRef 0) ''a[0]'' (Old (VNum 10)) =
     ([Obj [(''a[0]'', VNum 10)]], None) \<and>
   getValueByPath [Obj [(''a[0]'', VNum 10)]] (VRef 0) ''a[0]'' = Old VUndef \<and>
   setValueByPath basic_runtime [Obj []] (VRef 0) [] (Old (VNum 10)) =
     ([Obj [([], VNum 10)]], None) \<and>
   getValueByPath [Obj [([], VNum 10)]] (VRef 0) [] = Old VUndef"
  by code_simp

text \<open>
  Claim C1, amended: for every non-empty path none of whose segments ends in \<open>[]\<close>, is
  an indexed segment \<open>key[digits]\<close> or is \<open>__proto__\<close>, and every value other than
  \<open>undefined\<close>, writing the value at the path into an empty object succeeds and reading
  the path back from that object returns the value. (The segment \<open>__proto__\<close> is left
  out because the program's assignment \<open>current["__proto__"] = value\<close> does not store a
  property: see \<open>plain_segment\<close>.)
\<close>

theorem roundtrip_plain_paths:
  assumes "p \<noteq> []" "\<forall>seg\<in>set (split_dot p). plain_segment seg" "v \<noteq> VUndef"
    and "cell_at h t = Some (Obj [])"
  shows "\<exists>h'. setValueByPath rt h (VRef t) p (Old v) = (h', None) \<and>
               getValueByPath h' (VRef t) p = Old v"
proof -
  have ne: "split_dot p \<noteq> []" by (simp add: split_dot_def split_on_nonempty)
  from set_get_walk[OF ne assms(2) assms(4), of rt v] obtain h' where
    "set_walk rt h (VRef t) (split_dot p) (Old v) = (h', None)"
    "get_loop h' (Scalar (VRef t)) (split_dot p) = Some (Scalar v)" by auto
  then show ?thesis using assms(1,3) by (simp add: setValueByPath_def getValueByPath_def)
qed

theorem roundtrip_plain_paths_witness:
  "\<exists>h'. setValueByPath basic_runtime [Obj []] (VRef 0) ''a.b.c'' (Old (VNum 10)) = (h', None) \<and>
         getValueByPath h' (VRef 0) ''a.b.c'' = Old (VNum 10)"
proof -
  have 1: "''a.b.c'' \<noteq> []" by simp
  have 2: "\<forall>seg\<in>set (split_dot ''a.b.c''). plain_segment seg" by code_simp
  have 3: "VNum 10 \<noteq> VUndef" by simp
  have 4: "cell_at [Obj []] 0 = Some (Obj [])" by code_simp
  show ?thesis by (rule roundtrip_plain_paths[OF 1 2 3 4])
qed

subsection \<open>C2: wildcard segments of the reader\<close>

text \<open>
  Claim C2: in scalar state a wildcard segment \<open>key[]\<close> makes the array flow start with
  the members of the value at \<open>key\<close> if it is an array, with nothing if it is \<open>null\<close> or
  absent, and with the value alone otherwise; in array flow a wildcard segment replaces
  every element that is not \<open>null\<close> or \<open>undefined\<close> by the sequence of the value at its
  \<open>key\<close> (one level of flattening), and the other elements by nothing. The reader
  returns \<open>[1, 2, 3]\<close> for \<open>a[].b[]\<close> on \<open>{a: [{b: [1, 2]}, {b: [3]}]}\<close> and \<open>[7]\<close> for
  \<open>x[].v\<close> on \<open>{x: {v: 7}}\<close>.
\<close>

theorem wildcard_read:
  assumes "key \<noteq> []" "CHR ''['' \<notin> set key"
  shows "get_loop h (Scalar cur) ((key @ ''[]'') # rest) =
           (if nullish cur then None
            else get_loop h (Flow (wildcard_sequence h (get_prop h cur key))) rest) \<and>
         get_loop h (Flow xs) ((key @ ''[]'') # rest) =
           get_loop h
             (Flow (concat (map (\<lambda>item. wildcard_sequence h (get_prop h item key))
                             (filter (\<lambda>x. \<not> nullish x) xs)))) rest \<and>
         getValueByPath nested_store (VRef 0) ''a[].b[]'' = New [VNum 1, VNum 2, VNum 3] \<and>
         getValueByPath scalar_store (VRef 0) ''x[].v'' = New [VNum 7]"
proof -
  have p: "parseSeg (key @ ''[]'') = (key, PWildcard)"
    using assms by (rule parseSeg_wildcard)
  have a: "get_loop h (Scalar cur) ((key @ ''[]'') # rest) =
           (if nullish cur then None
            else get_loop h (Flow (wildcard_sequence h (get_prop h cur key))) rest)"
    using p by (simp add: wildcard_sequence_def del: append_assoc)
  have b: "get_loop h (Flow xs) ((key @ ''[]'') # rest) =
           get_loop h
             (Flow (concat (map (\<lambda>item. wildcard_sequence h (get_prop h item key))
                             (filter (\<lambda>x. \<not> nullish x) xs)))) rest"
    using p by (simp add: flow_items_wildcard del: append_assoc)
  have c: "getValueByPath nested_store (VRef 0) ''a[].b[]'' = New [VNum 1, VNum 2, VNum 3]"
    by code_simp
  have d: "getValueByPath scalar_store (VRef 0) ''x[].v'' = New [VNum 7]"
    by code_simp
  show ?thesis using a b c d by blast
qed

theorem wildcard_read_witness:
  "get_loop nested_store (Scalar (VRef 0)) [''a[]'', ''b[]''] =
     get_loop nested_store (Flow [VRef 2, VRef 4]) [''b[]''] \<and>
   get_loop nested_store (Flow [VRef 2, VNull, VRef 4]) [''b[]''] =
     get_loop nested_store (Flow [VNum 1, VNum 2, VNum 3]) []"
proof -
  have 1: "''a'' \<noteq> []" and 2: "CHR ''['' \<notin> set ''a''"
    and 3: "''b'' \<noteq> []" and 4: "CHR ''['' \<notin> set ''b''" by simp_all
  have n: "\<not> nullish (VRef 0)" by (simp add: nullish_def)
  have s: "wildcard_sequence nested_store (get_prop nested_store (VRef 0) ''a'') =
             [VRef 2, VRef 4]" by code_simp
  have f: "concat (map (\<lambda>item. wildcard_sequence nested_store (get_prop nested_store item ''b''))
                     (filter (\<lambda>x. \<not> nullish x) [VRef 2, VNull, VRef 4])) =
             [VNum 1, VNum 2, VNum 3]" by code_simp
  from wildcard_read[OF 1 2, of nested_store "VRef 0" "[''b[]'']"] n s
  have a: "get_loop nested_store (Scalar (VRef 0)) [''a[]'', ''b[]''] =
             get_loop nested_store (Flow [VRef 2, VRef 4]) [''b[]'']" by simp
  from wildcard_read[OF 3 4, of nested_store _ "[]" "[VRef 2, VNull, VRef 4]"] f
  have b: "get_loop nested_store (Flow [VRef 2, VNull, VRef 4]) [''b[]''] =
             get_loop nested_store (Flow [VNum 1, VNum 2, VNum 3]) []" by simp
  show ?thesis using a b by blast
qed

subsection \<open>C3: the array carrier of the writer\<close>

text \<open>
  Claim C3: on a segment \<open>key[]\<close> that is not the last, with \<open>current\<close> an object, the
  writer goes on from a store in which \<open>current[key]\<close> is an array (the one that was
  there, if it was an array) whose index 0 holds a reference to an object, and from
  that object: the one index 0 already referred to, with the store unchanged, or else
  a new empty object. (An object is what \<open>typeof\<close> calls one: the reference at index 0 is
  kept when it refers to an array.) Writing \<open>emails[].email\<close> and then
  \<open>emails[].isPrimary\<close> into an empty target gives
  \<open>{emails: [{email: "a@b.com", isPrimary: true}]}\<close>, with one array element.
\<close>

theorem carrier_step:
  assumes "cell_at h a = Some (Obj ps)" "rest \<noteq> []"
  shows "(\<exists>h2 arr o'.
      set_walk rt h (VRef a) ((key @ ''[]'') # rest) v = set_walk rt h2 (VRef o') rest v \<and>
      get_prop h2 (VRef a) key = VRef arr \<and> is_array h2 (VRef arr) \<and>
      get_prop h2 (VRef arr) ''0'' = VRef o' \<and>
      (is_array h (lookup ps key) \<longrightarrow> lookup ps key = VRef arr) \<and>
      (\<forall>old. is_array h (lookup ps key) \<and> get_prop h (lookup ps key) ''0'' = VRef old
             \<longrightarrow> o' = old \<and> h2 = h) \<and>
      (\<not> is_array h (lookup ps key) \<or> (\<forall>old. get_prop h (lookup ps key) ''0'' \<noteq> VRef old)
         \<longrightarrow> cell_at h2 o' = Some (Obj []) \<and> length h \<le> o')) \<and>
    setValueByPath rt
       (fst (setValueByPath rt [Obj []] (VRef 0) ''emails[].email'' (Old (VStr ''a@b.com''))))
       (VRef 0) ''emails[].isPrimary'' (Old (VBool True)) =
     ([Obj [(''emails'', VRef 1)], Arr [VRef 2] [],
       Obj [(''email'', VStr ''a@b.com''), (''isPrimary'', VBool True)]], None)"
proof (rule conjI)
  let ?raw = "key @ ''[]''"
  have al: "a < length h" using assms(1) by (rule cell_at_Some_less)
  have gk: "get_prop h (VRef a) key = lookup ps key" using assms(1) by (rule get_prop_obj)
  show "\<exists>h2 arr o'.
      set_walk rt h (VRef a) (?raw # rest) v = set_walk rt h2 (VRef o') rest v \<and>
      get_prop h2 (VRef a) key = VRef arr \<and> is_array h2 (VRef arr) \<and>
      get_prop h2 (VRef arr) ''0'' = VRef o' \<and>
      (is_array h (lookup ps key) \<longrightarrow> lookup ps key = VRef arr) \<and>
      (\<forall>old. is_array h (lookup ps key) \<and> get_prop h (lookup ps key) ''0'' = VRef old
             \<longrightarrow> o' = old \<and> h2 = h) \<and>
      (\<not> is_array h (lookup ps key) \<or> (\<forall>old. get_prop h (lookup ps key) ''0'' \<noteq> VRef old)
         \<longrightarrow> cell_at h2 o' = Some (Obj []) \<and> length h \<le> o')"
  proof (cases "is_array h (lookup ps key)")
    case True
    then obtain r xs qs where r: "lookup ps key = VRef r" "cell_at h r = Some (Arr xs qs)"
      by (auto simp: is_array_iff)
    have rl: "r < length h" using r(2) by (rule cell_at_Some_less)
    have ra: "r \<noteq> a" using r(2) assms(1) by auto
    have ea: "ensure_array rt h (VRef a) key = (h, None)"
      using True gk by (simp add: ensure_array_def)
    have g0: "get_prop h (VRef r) ''0'' = nth_or_undef xs 0" using r(2) by (rule get_prop_arr0)
    show ?thesis
    proof (cases "\<exists>old. nth_or_undef xs 0 = VRef old")
      case True
      then obtain old where old: "nth_or_undef xs 0 = VRef old" by blast
      have ec: "ensure_carrier rt h (VRef r) = (h, None)"
        using g0 old by (simp add: ensure_carrier_def)
      have "set_walk rt h (VRef a) (?raw # rest) v = set_walk rt h (VRef old) rest v"
        using assms(2) ea ec gk r(1) g0 old
        by (simp add: nullish_def ends_with_brackets del: append_assoc)
      moreover have "is_array h (VRef r)" using r(2) by (simp add: is_array_iff)
      ultimately show ?thesis using gk r g0 old by auto
    next
      case False
      let ?n = "length h"
      let ?h2 = "(h @ [Obj []])[r := Arr (arr_put xs 0 (VRef ?n)) qs]"
      have cr: "cell_at (h @ [Obj []]) r = Some (Arr xs qs)"
        using rl r(2) by (simp add: cell_at_snoc cell_at_nth)
      have nr: "\<not> truthy (nth_or_undef xs 0) \<or> js_typeof (nth_or_undef xs 0) \<noteq> ''object''"
        using False not_ref_iff[of "nth_or_undef xs 0"] by blast
      have ec: "ensure_carrier rt h (VRef r) = (?h2, None)"
        using nr by (simp add: ensure_carrier_def g0 alloc_def set_prop_arr0[OF cr])
      have ca: "cell_at ?h2 a = Some (Obj ps)"
        using al ra assms(1) by (simp add: cell_at_update cell_at_nth nth_append)
      have cr2: "cell_at ?h2 r = Some (Arr (arr_put xs 0 (VRef ?n)) qs)"
        using rl by (simp add: cell_at_update)
      have cn: "cell_at ?h2 ?n = Some (Obj [])"
        using rl by (simp add: cell_at_update)
      have gk2: "get_prop ?h2 (VRef a) key = VRef r"
        using r(1) by (simp add: get_prop_obj[OF ca])
      have g02: "get_prop ?h2 (VRef r) ''0'' = VRef ?n"
        by (simp add: get_prop_arr0[OF cr2] arr_put_0)
      have "set_walk rt h (VRef a) (?raw # rest) v = set_walk rt ?h2 (VRef ?n) rest v"
        using assms(2) ea ec gk r(1) gk2 g02
        by (simp add: nullish_def ends_with_brackets del: append_assoc)
      moreover have "is_array ?h2 (VRef r)" using cr2 by (simp add: is_array_iff)
      ultimately show ?thesis using gk2 g02 cn r(1) g0 False
        by (intro exI[of _ ?h2] exI[of _ r] exI[of _ ?n]) auto
    qed
  next
    case False
    let ?n = "length h"
    let ?h1 = "(h @ [Arr [] []])[a := Obj (obj_put ps key (VRef ?n))]"
    let ?h2 = "(?h1 @ [Obj []])[?n := Arr [VRef (Suc ?n)] []]"
    have c0: "cell_at (h @ [Arr [] []]) a = Some (Obj ps)"
      using al assms(1) by (simp add: cell_at_snoc cell_at_nth)
    have ea: "ensure_array rt h (VRef a) key = (?h1, None)"
      using False gk by (simp add: ensure_array_def alloc_def set_prop_obj[OF c0])
    have ca1: "cell_at ?h1 a = Some (Obj (obj_put ps key (VRef ?n)))"
      using al by (simp add: cell_at_update)
    have cn1: "cell_at ?h1 ?n = Some (Arr [] [])"
      using al by (simp add: cell_at_update)
    have gk1: "get_prop ?h1 (VRef a) key = VRef ?n"
      by (simp add: get_prop_obj[OF ca1] lookup_obj_put)
    have cn1': "cell_at (?h1 @ [Obj []]) ?n = Some (Arr [] [])"
      using al by (simp add: cell_at_snoc)
    have ec: "ensure_carrier rt ?h1 (VRef ?n) = (?h2, None)"
      by (simp add: ensure_carrier_def get_prop_arr0[OF cn1] nth_or_undef_def alloc_def
            set_prop_arr0[OF cn1'] arr_put_def)
    have ca2: "cell_at ?h2 a = Some (Obj (obj_put ps key (VRef ?n)))"
      using al by (simp add: cell_at_update nth_append)
    have cn2: "cell_at ?h2 ?n = Some (Arr [VRef (Suc ?n)] [])"
      by (simp add: cell_at_update)
    have cs2: "cell_at ?h2 (Suc ?n) = Some (Obj [])"
      by (simp add: cell_at_update nth_append)
    have gk2: "get_prop ?h2 (VRef a) key = VRef ?n"
      by (simp add: get_prop_obj[OF ca2] lookup_obj_put)
    have g02: "get_prop ?h2 (VRef ?n) ''0'' = VRef (Suc ?n)"
      by (simp add: get_prop_arr0[OF cn2] nth_or_undef_def)
    have "set_walk rt h (VRef a) (?raw # rest) v = set_walk rt ?h2 (VRef (Suc ?n)) rest v"
      using assms(2) ea ec gk1 gk2 g02
      by (simp add: nullish_def ends_with_brackets del: append_assoc)
    moreover have "is_array ?h2 (VRef ?n)" using cn2 by (simp add: is_array_iff)
    ultimately show ?thesis using gk2 g02 cs2 False
      by (intro exI[of _ ?h2] exI[of _ ?n] exI[of _ "Suc ?n"]) auto
  qed
next
  show "setValueByPath rt
       (fst (setValueByPath rt [Obj []] (VRef 0) ''emails[].email'' (Old (VStr ''a@b.com''))))
       (VRef 0) ''emails[].isPrimary'' (Old (VBool True)) =
     ([Obj [(''emails'', VRef 1)], Arr [VRef 2] [],
       Obj [(''email'', VStr ''a@b.com''), (''isPrimary'', VBool True)]], None)"
    by code_simp
qed

theorem carrier_step_witness:
  "\<exists>h2 arr o'.
      set_walk basic_runtime [Obj []] (VRef 0) [''emails[]'', ''email''] (Old (VStr ''a@b.com'')) =
        set_walk basic_runtime h2 (VRef o') [''email''] (Old (VStr ''a@b.com'')) \<and>
      get_prop h2 (VRef 0) ''emails'' = VRef arr \<and> is_array h2 (VRef arr) \<and>
      get_prop h2 (VRef arr) ''0'' = VRef o' \<and> cell_at h2 o' = Some (Obj [])"
proof -
  have 1: "cell_at [Obj []] 0 = Some (Obj [])" by code_simp
  have 2: "[''email''] \<noteq> []" by simp
  have 3: "\<not> is_array [Obj []] (lookup [] ''emails'')" by code_simp
  from carrier_step[OF 1 2, of basic_runtime "''emails''" "Old (VStr ''a@b.com'')"] 3
  show ?thesis by fastforce
qed

subsection \<open>C4: plain segments of the writer\<close>

text \<open>
  Claim C4 says that on a plain segment that is not the last the writer replaces by a
  new empty object every existing value that is not an object, arrays included. It
  fails for an array: the test is \<open>typeof current[key] !== "object"\<close>, which an array
  passes. Below the value at \<open>a\<close> is an array before the write and the same array after
  it; the write of \<open>b\<close> went to the array and no object was created.
\<close>

theorem object_step_counterexample:
  "is_array [Obj [(''a'', VRef 1)], Arr [VNum 1] []]
     (get_prop [Obj [(''a'', VRef 1)], Arr [VNum 1] []] (VRef 0) ''a'') \<and>
   setValueByPath basic_runtime [Obj [(''a'', VRef 1)], Arr [VNum 1] []] (VRef 0) ''a.b''
     (Old (VNum 5)) =
     ([Obj [(''a'', VRef 1)], Arr [VNum 1] [(''b'', VNum 5)]], None) \<and>
   is_array [Obj [(''a'', VRef 1)], Arr [VNum 1] [(''b'', VNum 5)]]
     (get_prop [Obj [(''a'', VRef 1)], Arr [VNum 1] [(''b'', VNum 5)]] (VRef 0) ''a'')"
  by code_simp

text \<open>
  Claim C4, amended: on a segment that does not end in \<open>[]\<close>, is not the last and is
  not \<open>__proto__\<close>, with \<open>current\<close> an object, the writer goes on from the value of the
  property, in the unchanged store, when that value is a reference (to an object or to
  an array); when \<open>current\<close> has no such property of its own, or its value is \<open>null\<close> or
  a primitive value, the writer stores a new empty object under the key and goes on
  from that object. (For \<open>__proto__\<close> the value read is the prototype that \<open>current\<close>
  inherits from, which the store does not hold.)
\<close>

theorem object_step:
  assumes "cell_at h a = Some (Obj ps)" "\<not> ends_with ''[]'' raw" "rest \<noteq> []"
    and "raw \<noteq> ''__proto__''"
  shows "set_walk rt h (VRef a) (raw # rest) v =
     (case lookup ps raw of
        VRef o' \<Rightarrow> set_walk rt h (VRef o') rest v
      | _ \<Rightarrow> set_walk rt ((h @ [Obj []])[a := Obj (obj_put ps raw (VRef (length h)))])
               (VRef (length h)) rest v)"
proof (cases "\<exists>o'. lookup ps raw = VRef o'")
  case True
  then obtain o' where o: "lookup ps raw = VRef o'" by blast
  have "ensure_object rt h (VRef a) raw = (h, None)"
    using assms(1) o by (simp add: ensure_object_def get_prop_obj nullish_def)
  then show ?thesis using assms o by (simp add: nullish_def get_prop_obj)
next
  case False
  let ?n = "length h"
  let ?h1 = "(h @ [Obj []])[a := Obj (obj_put ps raw (VRef ?n))]"
  have al: "a < length h" using assms(1) by (rule cell_at_Some_less)
  have c0: "cell_at (h @ [Obj []]) a = Some (Obj ps)"
    using al assms(1) by (simp add: cell_at_snoc cell_at_nth)
  have nr: "nullish (lookup ps raw) \<or> js_typeof (lookup ps raw) \<noteq> ''object''"
    using False nullish_or_not_object_iff[of "lookup ps raw"] by blast
  have eo: "ensure_object rt h (VRef a) raw = (?h1, None)"
    using nr by (simp add: ensure_object_def get_prop_obj[OF assms(1)] alloc_def set_prop_obj[OF c0])
  have ca: "cell_at ?h1 a = Some (Obj (obj_put ps raw (VRef ?n)))"
    using al by (simp add: cell_at_update)
  have gp: "get_prop ?h1 (VRef a) raw = VRef ?n"
    by (simp add: get_prop_obj[OF ca] lookup_obj_put)
  have "set_walk rt h (VRef a) (raw # rest) v = set_walk rt ?h1 (VRef ?n) rest v"
    using assms(2,3) eo gp by (simp add: nullish_def)
  then show ?thesis using False by (cases "lookup ps raw") simp_all
qed

theorem object_step_witness:
  "set_walk basic_runtime [Obj [(''a'', VNum 3)]] (VRef 0) [''a'', ''b''] (Old (VNum 10)) =
     set_walk basic_runtime [Obj [(''a'', VRef 1)], Obj []] (VRef 1) [''b''] (Old (VNum 10))"
proof -
  have 1: "cell_at [Obj [(''a'', VNum 3)]] 0 = Some (Obj [(''a'', VNum 3)])" by code_simp
  have 2: "\<not> ends_with ''[]'' ''a''" by code_simp
  have 3: "[''b''] \<noteq> []" by simp
  have 4: "lookup [(''a'', VNum 3)] ''a'' = VNum 3" by code_simp
  have 5: "''a'' \<noteq> ''__proto__''" by simp
  from object_step[OF 1 2 3 5, of basic_runtime "Old (VNum 10)"] 4
  show ?thesis by simp
qed

subsection \<open>C5: undefined is never written\<close>

text \<open>
  Claim C5: \<open>setValueByPath\<close> with the value \<open>undefined\<close> leaves the store as it is, for
  every target and path; an entry of the mapping whose source path reads as \<open>undefined\<close>
  leaves the store as it is, prints no warning and throws nothing; and the reader
  returns \<open>undefined\<close>, without throwing, for a key at which the value has nothing (the
  property read gives \<open>undefined\<close>), for an index into a value that is not an array, and
  for an index beyond the end of an array.
\<close>

theorem undefined_is_omitted:
  "setValueByPath rt h target p (Old VUndef) = (h, None) \<and>
   (\<not> starts_with ''='' s \<longrightarrow> getValueByPath h input s = Old VUndef \<longrightarrow>
      entry_step rt reg input result h (tp, VStr s) = (h, [], None)) \<and>
   (CHR ''.'' \<notin> set k \<longrightarrow> snd (parseSeg k) = PProp \<longrightarrow> get_prop h obj k = VUndef \<longrightarrow>
      getValueByPath h obj k = Old VUndef) \<and>
   (parseSeg seg = (k, PIndex n) \<longrightarrow> CHR ''.'' \<notin> set seg \<longrightarrow>
      \<not> is_array h (get_prop h obj k) \<or> length (elems h (get_prop h obj k)) \<le> n \<longrightarrow>
      getValueByPath h obj seg = Old VUndef)"
proof (intro conjI impI)
  show "setValueByPath rt h target p (Old VUndef) = (h, None)"
    by (simp add: setValueByPath_def)
next
  assume "\<not> starts_with ''='' s" "getValueByPath h input s = Old VUndef"
  then show "entry_step rt reg input result h (tp, VStr s) = (h, [], None)"
    by (simp add: entry_step_def plain_object_with_def Let_def)
next
  assume "CHR ''.'' \<notin> set k" "snd (parseSeg k) = PProp" "get_prop h obj k = VUndef"
  then show "getValueByPath h obj k = Old VUndef" by (rule read_missing_key)
next
  assume "parseSeg seg = (k, PIndex n)" "CHR ''.'' \<notin> set seg"
    "\<not> is_array h (get_prop h obj k) \<or> length (elems h (get_prop h obj k)) \<le> n"
  then show "getValueByPath h obj seg = Old VUndef" by (rule read_bad_index)
qed

theorem undefined_is_omitted_witness:
  "entry_step basic_runtime (transforms basic_runtime) (VRef 0) (VRef 6) nested_store
     (''out'', VStr ''a[1].b[4]'') = (nested_store, [], None) \<and>
   getValueByPath nested_store (VRef 0) ''missing'' = Old VUndef \<and>
   getValueByPath nested_store (VRef 2) ''b[2]'' = Old VUndef \<and>
   getValueByPath nested_store (VRef 0) ''b[0]'' = Old VUndef"
proof -
  note t = undefined_is_omitted[where h = nested_store]
  have 1: "\<not> starts_with ''='' ''a[1].b[4]''" by code_simp
  have 2: "getValueByPath nested_store (VRef 0) ''a[1].b[4]'' = Old VUndef" by code_simp
  have a: "entry_step basic_runtime (transforms basic_runtime) (VRef 0) (VRef 6) nested_store
     (''out'', VStr ''a[1].b[4]'') = (nested_store, [], None)"
    using t[THEN conjunct2, THEN conjunct1] 1 2 by blast
  have 5: "CHR ''.'' \<notin> set ''missing''" by simp
  have 6: "snd (parseSeg ''missing'') = PProp" by code_simp
  have 4: "get_prop nested_store (VRef 0) ''missing'' = VUndef" by code_simp
  have b: "getValueByPath nested_store (VRef 0) ''missing'' = Old VUndef"
    using t[THEN conjunct2, THEN conjunct2, THEN conjunct1] 4 5 6 by blast
  have 7: "parseSeg ''b[2]'' = (''b'', PIndex 2)" by code_simp
  have 8: "CHR ''.'' \<notin> set ''b[2]''" by simp
  have 9: "length (elems nested_store (get_prop nested_store (VRef 2) ''b'')) \<le> 2" by code_simp
  have c: "getValueByPath nested_store (VRef 2) ''b[2]'' = Old VUndef"
    using t[THEN conjunct2, THEN conjunct2, THEN conjunct2] 7 8 9 by blast
  have 10: "parseSeg ''b[0]'' = (''b'', PIndex 0)" by code_simp
  have 11: "CHR ''.'' \<notin> set ''b[0]''" by simp
  have 12: "\<not> is_array nested_store (get_prop nested_store (VRef 0) ''b'')" by code_simp
  have d: "getValueByPath nested_store (VRef 0) ''b[0]'' = Old VUndef"
    using t[THEN conjunct2, THEN conjunct2, THEN conjunct2] 10 11 12 by blast
  show ?thesis using a b c d by blast
qed

subsection \<open>C6: a directive whose function is unknown or throws\<close>

text \<open>
  Claim C6 says that an entry whose \<open>$transform\<close> names a function not present in the
  registry is skipped with a warning, so that \<open>transform\<close> returns what it returns for the
  mapping without the entry. The program does not keep this for a name that the
  registry object inherits: \<open>transforms["toString"]\<close> is a function, it is called and its
  result is written. The registry holds no \<open>toString\<close>; for the input \<open>{}\<close> the mapping
  \<open>{"x": {"$transform": "toString"}}\<close> gives \<open>{x: "[object Undefined]"}\<close> and no warning,
  the mapping without the entry gives \<open>{}\<close>. (For a name that the lookup does not find,
  and for a function that throws, the entry is skipped as the claim says:
  \<open>skipped_directive_changes_nothing\<close>.)
\<close>

theorem inherited_name_is_invoked:
  "transforms inheriting_runtime ''toString'' = None \<and>
   transform inheriting_runtime (transforms inheriting_runtime) inherited_name_store
     (VRef 0) (VRef 2) =
     ([Obj [], Obj [(''$transform'', VStr ''toString'')], Obj [(''x'', VRef 1)], Obj [],
       Obj [(''x'', VStr ''[object Undefined]'')]],
      [], Inr (Old (VRef 4))) \<and>
   transform inheriting_runtime (transforms inheriting_runtime) inherited_name_store
     (VRef 0) (VRef 3) =
     ([Obj [], Obj [(''$transform'', VStr ''toString'')], Obj [(''x'', VRef 1)], Obj [],
       Obj []],
      [], Inr (Old (VRef 4)))"
  by code_simp

subsection \<open>C7: array inputs\<close>

text \<open>
  Claim C7 says that for an array input each element of the result equals the
  single-item transform of the element at that position, with no state shared between
  items. The program does not keep this for a mapping that stores a literal array (or
  object) of its own and then writes into it: \<open>setValueByPath\<close> stores the literal of the
  mapping itself, not a copy, so all output records share it and every item writes into
  it. For the input \<open>[{e: "a"}, {e: "b"}]\<close> and the mapping
  \<open>{"emails": [], "emails[].email": "e"}\<close> both output records end with the \<open>emails\<close>
  of the last item, while the transform of the first item alone gives \<open>"a"\<close>.
\<close>

theorem items_share_mapping_literal:
  "transform basic_runtime (transforms basic_runtime) shared_store (VRef 0) (VRef 3) =
     ([Arr [VRef 1, VRef 2] [], Obj [(''e'', VStr ''a'')], Obj [(''e'', VStr ''b'')],
       Obj [(''emails'', VRef 4), (''emails[].email'', VStr ''e'')],
       Arr [VRef 6] [], Obj [(''emails'', VRef 4)], Obj [(''email'', VStr ''b'')],
       Obj [(''emails'', VRef 4)]],
      [], Inr (New [VRef 5, VRef 7])) \<and>
   getValueByPath
     (fst (transform basic_runtime (transforms basic_runtime) shared_store (VRef 0) (VRef 3)))
     (VRef 5) ''emails[].email'' = New [VStr ''b''] \<and>
   transformOne basic_runtime (transforms basic_runtime) shared_store (VRef 1) (VRef 3) =
     ([Arr [VRef 1, VRef 2] [], Obj [(''e'', VStr ''a'')], Obj [(''e'', VStr ''b'')],
       Obj [(''emails'', VRef 4), (''emails[].email'', VStr ''e'')],
       Arr [VRef 6] [], Obj [(''emails'', VRef 4)], Obj [(''email'', VStr ''a'')]],
      [], Inr (VRef 5)) \<and>
   getValueByPath
     (fst (transformOne basic_runtime (transforms basic_runtime) shared_store (VRef 1) (VRef 3)))
     (VRef 5) ''emails[].email'' = New [VStr ''a'']"
  by code_simp

subsection \<open>C8: countryFromISO\<close>

text \<open>
  Claim C8 says that a non-empty code which neither lookup resolves is returned
  unchanged, and that the function never raises for a non-empty input. The function
  returns the normalised code, not its argument: for \<open>"xx"\<close>, which neither lookup
  resolves, it returns \<open>"XX"\<close>. And it raises when the conversion \<open>String(code)\<close> does, as
  for the object \<open>{toString: 1}\<close>, whose \<open>toString\<close> is not a function.
\<close>

theorem countryFromISO_counterexample:
  "unresolved basic_runtime (normalize basic_runtime ''xx'') \<and>
   countryFromISO basic_runtime [] [Old (VStr ''xx'')] = Inr (Old (VStr ''XX'')) \<and>
   countryFromISO basic_runtime odd_code_store [Old (VRef 0)] = Inl TypeError"
  by code_simp

text \<open>
  Claim C8, amended: \<open>countryFromISO\<close> trims and upper-cases its argument and looks the
  normalised code up; \<open>"GB"\<close> gives \<open>"United Kingdom"\<close>; a non-empty code that neither the
  locale-aware lookup nor the fallback table resolves gives the normalised code; for a
  non-empty string the function throws nothing and does not return \<open>undefined\<close>, and for
  any other value that is not \<open>null\<close> or \<open>undefined\<close> it throws exactly when the conversion
  \<open>String(code)\<close> throws; \<open>null\<close>, \<open>undefined\<close>, the empty string and a missing argument
  give \<open>undefined\<close>.
\<close>

theorem countryFromISO_results:
  "countryFromISO rt h [Old (VStr ''GB'')] = Inr (Old (VStr ''United Kingdom'')) \<and>
   (s \<noteq> [] \<longrightarrow>
      countryFromISO rt h [Old (VStr s)] = Inr (Old (VStr (fallback_or (normalize rt s))))) \<and>
   (s \<noteq> [] \<longrightarrow> unresolved rt (normalize rt s) \<longrightarrow>
      countryFromISO rt h [Old (VStr s)] = Inr (Old (VStr (normalize rt s)))) \<and>
   (c \<noteq> Old VUndef \<longrightarrow> c \<noteq> Old VNull \<longrightarrow> (\<forall>t. c \<noteq> Old (VStr t)) \<longrightarrow>
      countryFromISO rt h [c] =
        (case to_String rt h c of
           Inl e \<Rightarrow> Inl e
         | Inr t \<Rightarrow> Inr (Old (VStr (fallback_or (normalize rt t)))))) \<and>
   countryFromISO rt h [Old VNull] = Inr (Old VUndef) \<and>
   countryFromISO rt h [Old VUndef] = Inr (Old VUndef) \<and>
   countryFromISO rt h [Old (VStr [])] = Inr (Old VUndef) \<and>
   countryFromISO rt h [] = Inr (Old VUndef)"
proof (intro conjI impI)
  have n: "normalize rt ''GB'' = ''GB''"
    by (simp add: normalize_def toUpperCase_def trim_def is_space_def is_ascii_def upper_char_def)
  have f: "fallback_or ''GB'' = ''United Kingdom''" by code_simp
  show "countryFromISO rt h [Old (VStr ''GB'')] = Inr (Old (VStr ''United Kingdom''))"
    by (simp add: countryFromISO_def n f country_name_def intl_probe_def)
next
  assume "s \<noteq> []"
  then show "countryFromISO rt h [Old (VStr s)] =
               Inr (Old (VStr (fallback_or (normalize rt s))))"
    by (simp add: countryFromISO_def country_name_def intl_probe_def)
next
  assume "s \<noteq> []" "unresolved rt (normalize rt s)"
  then show "countryFromISO rt h [Old (VStr s)] = Inr (Old (VStr (normalize rt s)))"
    by (simp add: countryFromISO_def unresolved_def country_name_def intl_probe_def
          fallback_or_def)
next
  assume "c \<noteq> Old VUndef" "c \<noteq> Old VNull" "\<forall>t. c \<noteq> Old (VStr t)"
  then show "countryFromISO rt h [c] =
        (case to_String rt h c of
           Inl e \<Rightarrow> Inl e
         | Inr t \<Rightarrow> Inr (Old (VStr (fallback_or (normalize rt t)))))"
    by (auto simp: countryFromISO_def country_name_def intl_probe_def Let_def
          split: rval.splits val.splits sum.splits)
qed (simp_all add: countryFromISO_def)

theorem countryFromISO_results_witness:
  "countryFromISO basic_runtime [] [Old (VStr '' zz '')] = Inr (Old (VStr ''ZZ'')) \<and>
   countryFromISO basic_runtime [] [Old (VStr ''us'')] = Inr (Old (VStr ''United States'')) \<and>
   countryFromISO basic_runtime odd_code_store [Old (VRef 0)] = Inl TypeError"
proof -
  note t = countryFromISO_results[where rt = basic_runtime and h = "[]"]
  have 1: "'' zz '' \<noteq> []" by simp
  have 2: "normalize basic_runtime '' zz '' = ''ZZ''" by code_simp
  have 3: "unresolved basic_runtime ''ZZ''" by code_simp
  have a: "countryFromISO basic_runtime [] [Old (VStr '' zz '')] = Inr (Old (VStr ''ZZ''))"
    using t[where s = "'' zz ''", THEN conjunct2, THEN conjunct2, THEN conjunct1] 1 2 3 by simp
  have 4: "''us'' \<noteq> []" by simp
  have 5: "fallback_or (normalize basic_runtime ''us'') = ''United States''" by code_simp
  have b: "countryFromISO basic_runtime [] [Old (VStr ''us'')] =
             Inr (Old (VStr ''United States''))"
    using t[where s = "''us''", THEN conjunct2, THEN conjunct1] 4 5 by simp
  have 6: "Old (VRef 0) \<noteq> Old VUndef" "Old (VRef 0) \<noteq> Old VNull"
    "\<forall>t. Old (VRef 0) \<noteq> Old (VStr t)" by simp_all
  have 7: "to_String basic_runtime odd_code_store (Old (VRef 0)) = Inl TypeError"
    by code_simp
  have c: "countryFromISO basic_runtime odd_code_store [Old (VRef 0)] = Inl TypeError"
    using countryFromISO_results[where rt = basic_runtime and h = odd_code_store
            and c = "Old (VRef 0)", THEN conjunct2, THEN conjunct2, THEN conjunct2,
            THEN conjunct1] 6 7 by simp
  show ?thesis using a b c by blast
qed

subsection \<open>C9: literal strings\<close>

text \<open>
  Claim C9: for a string that begins with \<open>=\<close>, \<open>resolveSpec\<close> returns the rest of the
  string after that one character, whatever the input and the store are, and the
  interpreter writes that same literal to the target path; \<open>"=GBP"\<close> gives \<open>"GBP"\<close> and
  \<open>"==lead"\<close> gives \<open>"=lead"\<close>.
\<close>

theorem literal_prefix:
  "resolveSpec h input (VStr (CHR ''='' # s)) = Old (VStr s) \<and>
   entry_step rt reg input result h (tp, VStr (CHR ''='' # s)) =
     write_entry rt h result tp (Old (VStr s)) \<and>
   resolveSpec h input (VStr ''=GBP'') = Old (VStr ''GBP'') \<and>
   resolveSpec h input (VStr ''==lead'') = Old (VStr ''=lead'')"
  by (simp add: resolveSpec_def entry_step_def nullish_def plain_object_with_def
        starts_with_def Let_def)

theorem literal_prefix_witness:
  "entry_step basic_runtime (transforms basic_runtime) VNull (VRef 0) [Obj []]
     (''currency'', VStr ''==GBP'') = ([Obj [(''currency'', VStr ''=GBP'')]], [], None)"
proof -
  have w: "write_entry basic_runtime [Obj []] (VRef 0) ''currency'' (Old (VStr ''=GBP'')) =
             ([Obj [(''currency'', VStr ''=GBP'')]], [], None)" by code_simp
  from literal_prefix[of "[Obj []]" VNull "''=GBP''" basic_runtime "transforms basic_runtime"
         "VRef 0" "''currency''"] w
  show ?thesis by simp
qed

subsection \<open>C10: the arguments of a directive\<close>

text \<open>
  Claim C10: for a directive (an object with a \<open>$transform\<close> key) whose name the lookup
  finds, the interpreter calls the function on this argument list and writes what the
  call returns (or reports what it throws): if the directive has a \<open>$args\<close> key, the
  resolved elements of its value when that is an array and the resolved value alone
  when it is not, whether or not there is a \<open>$path\<close> key; without \<open>$args\<close> but with
  \<open>$path\<close>, the resolved value of \<open>$path\<close> alone; with neither, the empty list.
\<close>

theorem directive_arguments:
  assumes "cell_at h a = Some (Obj ps)" "map_of ps ''$transform'' = Some (VStr name)"
    "registry_lookup rt reg name = Some fn"
  shows "entry_step rt reg input result h (tp, VRef a) =
     (case fn h
             (case map_of ps ''$args'' of
                Some x \<Rightarrow> map (resolveSpec h input) (if is_array h x then elems h x else [x])
              | None \<Rightarrow>
                  (case map_of ps ''$path'' of
                     Some p \<Rightarrow> [resolveSpec h input p]
                   | None \<Rightarrow> [])) of
        Inl e \<Rightarrow> (h, [TransformFailed name e], None)
      | Inr out \<Rightarrow>
          if out = Old VUndef then (h, [], None)
          else (case setValueByPath rt h result tp out of
                  (h', Some e) \<Rightarrow> (h', [TransformFailed name e], None)
                | (h', None) \<Rightarrow> (h', [], None)))"
proof -
  have po: "plain_object_with h (VRef a) ''$transform''"
    using assms(1,2) by (simp add: plain_object_with_def is_array_def has_own_obj)
  have pk: "prop_key rt h (get_prop h (VRef a) ''$transform'') = Inr name"
    using assms(1,2) by (simp add: prop_key_def get_prop_obj lookup_def)
  have da: "directive_args h input (VRef a) =
     (case map_of ps ''$args'' of
          Some x \<Rightarrow> map (resolveSpec h input) (if is_array h x then elems h x else [x])
        | None \<Rightarrow>
            (case map_of ps ''$path'' of Some p \<Rightarrow> [resolveSpec h input p] | None \<Rightarrow> []))"
    using assms(1)
    by (auto simp: directive_args_def has_own_obj get_prop_obj lookup_def split: option.splits)
  have "entry_step rt reg input result h (tp, VRef a) =
          invoke rt h result tp name fn (directive_args h input (VRef a))"
    using po pk assms(3) by (simp add: entry_step_def)
  then show ?thesis unfolding da by (simp add: invoke_def split: sum.splits)
qed

theorem directive_arguments_witness:
  "entry_step basic_runtime (transforms basic_runtime) (VRef 0) (VRef 2) directive_store
     (''country'', VRef 1) =
   ([Obj [(''code'', VStr ''GB''), (''name'', VStr ''x'')],
     Obj [(''$transform'', VStr ''countryFromISO''), (''$args'', VStr ''code''),
          (''$path'', VStr ''name'')],
     Obj [(''country'', VStr ''United Kingdom'')]], [], None)"
proof -
  let ?ps = "[(''$transform'', VStr ''countryFromISO''), (''$args'', VStr ''code''),
              (''$path'', VStr ''name'')]"
  have 1: "cell_at directive_store 1 = Some (Obj ?ps)" by code_simp
  have 2: "map_of ?ps ''$transform'' = Some (VStr ''countryFromISO'')" by simp
  have 3: "registry_lookup basic_runtime (transforms basic_runtime) ''countryFromISO'' =
             Some (countryFromISO basic_runtime)"
    by (simp add: registry_lookup_def transforms_def)
  have 4: "map_of ?ps ''$args'' = Some (VStr ''code'')" by simp
  have 5: "\<not> is_array directive_store (VStr ''code'')" by (simp add: is_array_def)
  have 6: "resolveSpec directive_store (VRef 0) (VStr ''code'') = Old (VStr ''GB'')"
    by code_simp
  have 7: "countryFromISO basic_runtime directive_store [Old (VStr ''GB'')] =
             Inr (Old (VStr ''United Kingdom''))" by code_simp
  have 8: "setValueByPath basic_runtime directive_store (VRef 2) ''country''
             (Old (VStr ''United Kingdom'')) =
           ([Obj [(''code'', VStr ''GB''), (''name'', VStr ''x'')],
             Obj [(''$transform'', VStr ''countryFromISO''), (''$args'', VStr ''code''),
                  (''$path'', VStr ''name'')],
             Obj [(''country'', VStr ''United Kingdom'')]], None)" by code_simp
  from directive_arguments[where h = directive_store and a = 1 and ps = ?ps
         and name = "''countryFromISO''" and reg = "transforms basic_runtime"
         and fn = "countryFromISO basic_runtime" and rt = basic_runtime and input = "VRef 0"
         and result = "VRef 2" and tp = "''country''"] 1 2 3 4 5 6 7 8
  show ?thesis by simp
qed

end
